theory Spec2Isabelle
  imports Complex_Main
begin

section \<open>Score weights (score_weights.h)\<close>

text \<open>
  The C++ struct \<open>ScoreWeights\<close> has the fields \<open>latency\<close>, \<open>bandwidth\<close> and
  \<open>connection\<close>. Two of these names are also fields of \<open>BrokerInfo\<close>, so the weight
  fields carry the prefix \<open>w_\<close> here. A C++ \<open>double\<close> is modelled as a real number:
  every arithmetic operation of the source is read as the exact operation, rounding and
  the special values of IEEE arithmetic are left out.
\<close>

record ScoreWeights =
  w_latency :: real
  w_bandwidth :: real
  w_connection :: real

definition CATEGORY_WEIGHTS :: "(string \<times> ScoreWeights) list" where
  "CATEGORY_WEIGHTS =
    [(''sensor'',    \<lparr>w_latency = 6/10, w_bandwidth = 2/10, w_connection = 2/10\<rparr>),
     (''camera'',    \<lparr>w_latency = 2/10, w_bandwidth = 6/10, w_connection = 2/10\<rparr>),
     (''meter'',     \<lparr>w_latency = 6/10, w_bandwidth = 2/10, w_connection = 2/10\<rparr>),
     (''light'',     \<lparr>w_latency = 6/10, w_bandwidth = 2/10, w_connection = 2/10\<rparr>),
     (''appliance'', \<lparr>w_latency = 6/10, w_bandwidth = 2/10, w_connection = 2/10\<rparr>),
     (''wearable'',  \<lparr>w_latency = 3/10, w_bandwidth = 4/10, w_connection = 3/10\<rparr>),
     (''beacon'',    \<lparr>w_latency = 6/10, w_bandwidth = 2/10, w_connection = 2/10\<rparr>),
     (''traffic'',   \<lparr>w_latency = 4/10, w_bandwidth = 2/10, w_connection = 4/10\<rparr>),
     (''drone'',     \<lparr>w_latency = 3/10, w_bandwidth = 5/10, w_connection = 2/10\<rparr>),
     (''rfid'',      \<lparr>w_latency = 3/10, w_bandwidth = 2/10, w_connection = 5/10\<rparr>),
     (''signage'',   \<lparr>w_latency = 2/10, w_bandwidth = 6/10, w_connection = 2/10\<rparr>)]"

text \<open>
  The expression
  \<^verbatim>\<open>CATEGORY_WEIGHTS.count(category_) ? CATEGORY_WEIGHTS.at(category_) : CATEGORY_WEIGHTS.at("sensor")\<close>
  of \<open>update_broker_metrics\<close> and \<open>mark_broker_available\<close>.
\<close>

definition category_weights :: "string \<Rightarrow> ScoreWeights" where
  "category_weights category =
    (case map_of CATEGORY_WEIGHTS category of
       Some w \<Rightarrow> w
     | None \<Rightarrow> the (map_of CATEGORY_WEIGHTS ''sensor''))"

section \<open>Broker records (broker_list_manager.h, broker_list_manager.cpp)\<close>

text \<open>
  \<open>last_check\<close> is a reading of the steady clock; the clock is a parameter \<open>now\<close> of
  every operation that reads it.
\<close>

record BrokerInfo =
  uri :: string
  latency :: real
  bandwidth :: real
  connection_count :: int
  score :: real
  is_available :: bool
  last_check :: nat

text \<open>The constructor \<open>BrokerInfo::BrokerInfo(broker_uri)\<close>.\<close>

definition new_BrokerInfo :: "string \<Rightarrow> nat \<Rightarrow> BrokerInfo" where
  "new_BrokerInfo broker_uri now =
    \<lparr>uri = broker_uri, latency = 0, bandwidth = 0, connection_count = 0,
     score = 0, is_available = True, last_check = now\<rparr>"

definition LATENCY_BASELINE :: real where
  "LATENCY_BASELINE = 100"

definition BANDWIDTH_BASELINE :: real where
  "BANDWIDTH_BASELINE = 1000000"

definition CONNECTION_BASELINE :: int where
  "CONNECTION_BASELINE = 100"

definition latency_score :: "BrokerInfo \<Rightarrow> real" where
  "latency_score b =
    (if latency b > 0 then max 0 (1 - latency b / LATENCY_BASELINE) else 0)"

definition bandwidth_score :: "BrokerInfo \<Rightarrow> real" where
  "bandwidth_score b =
    (if bandwidth b > 0 then min 1 (bandwidth b / BANDWIDTH_BASELINE) else 0)"

definition connection_score :: "BrokerInfo \<Rightarrow> real" where
  "connection_score b =
    (if connection_count b > 0
     then max 0 (1 - real_of_int (connection_count b) / real_of_int CONNECTION_BASELINE)
     else 0)"

definition update_score :: "ScoreWeights \<Rightarrow> BrokerInfo \<Rightarrow> BrokerInfo" where
  "update_score weights b =
    (let b1 = b\<lparr>score := latency_score b * w_latency weights
                         + bandwidth_score b * w_bandwidth weights
                         + connection_score b * w_connection weights\<rparr>
     in if \<not> is_available b1 then b1\<lparr>score := 0\<rparr> else b1)"

definition reset_metrics :: "nat \<Rightarrow> BrokerInfo \<Rightarrow> BrokerInfo" where
  "reset_metrics now b =
    b\<lparr>latency := 0, bandwidth := 0, connection_count := 0, score := 0, last_check := now\<rparr>"

section \<open>The broker registry (class BrokerListManager)\<close>

text \<open>
  The members \<open>brokers_\<close>, \<open>current_broker_index_\<close> and \<open>category_\<close>; a field name cannot
  end with an underscore here. \<open>size_t\<close> indices are natural numbers: the source
  decrements or subtracts only where the value is positive.
\<close>

record BrokerListManager =
  brokers :: "BrokerInfo list"
  current_broker_index :: nat
  category_name :: string

definition new_BrokerListManager :: "string \<Rightarrow> BrokerListManager" where
  "new_BrokerListManager category =
    \<lparr>brokers = [], current_broker_index = 0, category_name = category\<rparr>"

text \<open>
  \<open>std::find_if\<close> followed by \<open>std::distance\<close>, and the loops
  \<^verbatim>\<open>for (size_t i = 0; i < brokers_.size(); ++i) if (brokers_[i]->uri == uri) ...\<close>:
  the index of the first element that satisfies the predicate.
\<close>

fun find_if :: "('a \<Rightarrow> bool) \<Rightarrow> 'a list \<Rightarrow> nat option" where
  "find_if P [] = None"
| "find_if P (x # xs) =
    (if P x then Some 0
     else (case find_if P xs of None \<Rightarrow> None | Some i \<Rightarrow> Some (Suc i)))"

text \<open>
  The loops \<^verbatim>\<open>for (auto& broker : brokers_) if (broker->uri == uri) { ...; break; }\<close>:
  the first element that satisfies the predicate is changed, the others are kept.
\<close>

fun update_first :: "('a \<Rightarrow> bool) \<Rightarrow> ('a \<Rightarrow> 'a) \<Rightarrow> 'a list \<Rightarrow> 'a list" where
  "update_first P f [] = []"
| "update_first P f (x # xs) = (if P x then f x # xs else x # update_first P f xs)"

definition add_broker :: "nat \<Rightarrow> string \<Rightarrow> BrokerListManager \<Rightarrow> BrokerListManager" where
  "add_broker now u m =
    (case find_if (\<lambda>b. uri b = u) (brokers m) of
       Some i \<Rightarrow> m
     | None \<Rightarrow>
        (let m1 = m\<lparr>brokers := brokers m @ [new_BrokerInfo u now]\<rparr>
         in if length (brokers m1) = 1 then m1\<lparr>current_broker_index := 0\<rparr> else m1))"

definition remove_broker :: "string \<Rightarrow> BrokerListManager \<Rightarrow> BrokerListManager" where
  "remove_broker u m =
    (case find_if (\<lambda>b. uri b = u) (brokers m) of
       None \<Rightarrow> m
     | Some removed_index \<Rightarrow>
        (let m1 = m\<lparr>brokers := take removed_index (brokers m)
                                   @ drop (Suc removed_index) (brokers m)\<rparr>
         in if removed_index = current_broker_index m1 then
              (if brokers m1 = [] then m1\<lparr>current_broker_index := 0\<rparr>
               else if current_broker_index m1 \<ge> length (brokers m1)
                    then m1\<lparr>current_broker_index := length (brokers m1) - 1\<rparr>
               else m1)
            else if removed_index < current_broker_index m1
                 then m1\<lparr>current_broker_index := current_broker_index m1 - 1\<rparr>
            else m1))"

definition clear_brokers :: "BrokerListManager \<Rightarrow> BrokerListManager" where
  "clear_brokers m = m\<lparr>brokers := [], current_broker_index := 0\<rparr>"

definition get_broker_uris :: "BrokerListManager \<Rightarrow> string list" where
  "get_broker_uris m = map uri (brokers m)"

definition get_current_broker :: "BrokerListManager \<Rightarrow> BrokerInfo option" where
  "get_current_broker m =
    (if brokers m = [] \<or> current_broker_index m \<ge> length (brokers m) then None
     else Some (brokers m ! current_broker_index m))"

definition get_current_broker_uri :: "BrokerListManager \<Rightarrow> string" where
  "get_current_broker_uri m =
    (case get_current_broker m of Some b \<Rightarrow> uri b | None \<Rightarrow> '''')"

definition set_current_broker :: "string \<Rightarrow> BrokerListManager \<Rightarrow> bool \<times> BrokerListManager" where
  "set_current_broker u m =
    (case find_if (\<lambda>b. uri b = u) (brokers m) of
       Some i \<Rightarrow> (True, m\<lparr>current_broker_index := i\<rparr>)
     | None \<Rightarrow> (False, m))"

text \<open>
  The loop of \<open>find_best_broker_internal\<close>: the pair holds \<open>best_broker\<close> and
  \<open>best_score\<close>, which start as \<open>nullptr\<close> and \<open>-1.0\<close>.
\<close>

fun find_best_loop :: "BrokerInfo list \<Rightarrow> BrokerInfo option \<times> real \<Rightarrow> BrokerInfo option \<times> real" where
  "find_best_loop [] acc = acc"
| "find_best_loop (b # bs) (best_broker, best_score) =
    (if is_available b \<and> score b > best_score
     then find_best_loop bs (Some b, score b)
     else find_best_loop bs (best_broker, best_score))"

definition find_best_broker :: "BrokerListManager \<Rightarrow> BrokerInfo option" where
  "find_best_broker m =
    (if brokers m = [] then None
     else fst (find_best_loop (brokers m) (None, - 1)))"

definition SWITCH_THRESHOLD :: real where
  "SWITCH_THRESHOLD = 1/10"

definition should_switch_broker :: "BrokerListManager \<Rightarrow> bool" where
  "should_switch_broker m =
    (case get_current_broker m of
       None \<Rightarrow> False
     | Some current_broker \<Rightarrow>
        (case find_best_broker m of
           None \<Rightarrow> False
         | Some best_broker \<Rightarrow>
            (if uri current_broker \<noteq> uri best_broker
             then score best_broker - score current_broker > SWITCH_THRESHOLD
             else False)))"

definition update_broker_metrics ::
  "nat \<Rightarrow> string \<Rightarrow> real \<Rightarrow> real \<Rightarrow> int \<Rightarrow> BrokerListManager \<Rightarrow> BrokerListManager" where
  "update_broker_metrics now u lat bw cc m =
    (let weights = category_weights (category_name m)
     in m\<lparr>brokers :=
          update_first (\<lambda>b. uri b = u)
            (\<lambda>b. update_score weights
                   (b\<lparr>latency := lat, bandwidth := bw, connection_count := cc,
                      last_check := now\<rparr>))
            (brokers m)\<rparr>)"

definition mark_broker_unavailable :: "string \<Rightarrow> BrokerListManager \<Rightarrow> BrokerListManager" where
  "mark_broker_unavailable u m =
    m\<lparr>brokers :=
       update_first (\<lambda>b. uri b = u) (\<lambda>b. b\<lparr>is_available := False, score := 0\<rparr>) (brokers m)\<rparr>"

definition mark_broker_available :: "string \<Rightarrow> BrokerListManager \<Rightarrow> BrokerListManager" where
  "mark_broker_available u m =
    (let weights = category_weights (category_name m)
     in m\<lparr>brokers :=
          update_first (\<lambda>b. uri b = u)
            (\<lambda>b. update_score weights (b\<lparr>is_available := True\<rparr>))
            (brokers m)\<rparr>)"


definition get_broker_count :: "BrokerListManager \<Rightarrow> nat" where
  "get_broker_count m = length (brokers m)"

definition get_all_brokers :: "BrokerListManager \<Rightarrow> BrokerInfo list" where
  "get_all_brokers m = brokers m"

section \<open>The MQTT client and the network (external collaborators)\<close>

text \<open>
  The manager uses \<open>mqtt::async_client\<close> through its constructor, \<open>connect\<close> and
  \<open>publish\<close>. A client is modelled by the URI it is bound to and the publications it has
  accepted, in order. What the network does is a parameter: \<open>accepts u\<close> says that a
  connect to \<open>u\<close> completes with return code 0 (any other return code and any exception of
  \<open>connect\<close> give \<open>False\<close>), and \<open>publish_throws c p\<close> says that \<open>publish\<close> of \<open>p\<close> on the
  client \<open>c\<close> throws. The constructor of the client is taken not to throw. The registry
  holds each URI once, so one call of \<open>connect\<close> or \<open>switch_to_best_broker\<close> tries a
  broker at most once, and successive publishes of one call see different histories of
  the client: functions of the URI, and of the client and the publication, cover what the
  network can do during a call.
\<close>

type_synonym publication = "string \<times> string \<times> int \<times> bool"

record async_client =
  server_uri :: string
  delivered :: "publication list"

record network =
  accepts :: "string \<Rightarrow> bool"
  publish_throws :: "async_client \<Rightarrow> publication \<Rightarrow> bool"

definition new_async_client :: "string \<Rightarrow> async_client" where
  "new_async_client broker_uri = \<lparr>server_uri = broker_uri, delivered = []\<rparr>"

text \<open>\<open>client_->publish(...)\<close>: \<open>None\<close> when the call throws.\<close>

definition client_publish :: "network \<Rightarrow> async_client \<Rightarrow> publication \<Rightarrow> async_client option" where
  "client_publish net c p =
    (if publish_throws net c p then None else Some (c\<lparr>delivered := delivered c @ [p]\<rparr>))"

datatype delivery_token = Delivery_token publication

section \<open>The session manager (class SelfAdaptiveMqttManager)\<close>

record QueuedMessage =
  topic :: string
  payload :: string
  qos :: int
  retained :: bool
  timestamp :: nat

text \<open>
  The members \<open>client_\<close> (\<open>None\<close> is the empty \<open>unique_ptr\<close>), \<open>broker_manager_\<close>,
  \<open>is_connected_\<close>, \<open>is_connecting_\<close>, \<open>message_queue_\<close> (front of the queue first) and
  \<open>current_broker_try_index_\<close>. The client id, the persistence directory, the connect
  options and the user callbacks do not influence the operations below and are left out.
  The operations are modelled as they run on one thread; the mutexes are not modelled.
\<close>

record SelfAdaptiveMqttManager =
  client :: "async_client option"
  broker_manager :: BrokerListManager
  is_connected :: bool
  is_connecting :: bool
  message_queue :: "QueuedMessage list"
  current_broker_try_index :: nat

definition new_SelfAdaptiveMqttManager :: "string \<Rightarrow> SelfAdaptiveMqttManager" where
  "new_SelfAdaptiveMqttManager category =
    \<lparr>client = None, broker_manager = new_BrokerListManager category,
     is_connected = False, is_connecting = False, message_queue = [],
     current_broker_try_index = 0\<rparr>"

text \<open>
  A call that does not return a value: it dereferences the empty \<open>client_\<close>, or the
  model of the recursion of \<open>handle_connection_failure\<close> has used up its fuel.
\<close>

datatype fault = Null_dereference | Out_of_fuel

definition MAX_QUEUE_SIZE :: nat where
  "MAX_QUEUE_SIZE = 1000"

definition add_message_to_queue ::
  "nat \<Rightarrow> string \<Rightarrow> string \<Rightarrow> int \<Rightarrow> bool \<Rightarrow> SelfAdaptiveMqttManager \<Rightarrow> SelfAdaptiveMqttManager" where
  "add_message_to_queue now t p q r s =
    (let s1 = (if length (message_queue s) \<ge> MAX_QUEUE_SIZE
               then s\<lparr>message_queue := tl (message_queue s)\<rparr> else s);
         msg = \<lparr>topic = t, payload = p, qos = q, retained = r, timestamp = now\<rparr>
     in s1\<lparr>message_queue := message_queue s1 @ [msg]\<rparr>)"

definition clear_message_queue :: "SelfAdaptiveMqttManager \<Rightarrow> SelfAdaptiveMqttManager" where
  "clear_message_queue s = s\<lparr>message_queue := []\<rparr>"

text \<open>
  The arguments \<open>queued_msg.topic, queued_msg.payload, queued_msg.qos, queued_msg.retained\<close>
  that \<open>resend_queued_messages\<close> passes to \<open>publish\<close>.
\<close>

definition publication_of :: "QueuedMessage \<Rightarrow> publication" where
  "publication_of m = (topic m, payload m, qos m, retained m)"

text \<open>
  The loop of \<open>resend_queued_messages\<close> on the client \<open>c\<close>: the front entry is published;
  when the publish throws the loop ends and the entry stays, otherwise the entry is
  popped and the loop goes on.
\<close>

fun resend_loop ::
  "network \<Rightarrow> async_client \<Rightarrow> QueuedMessage list \<Rightarrow> async_client \<times> QueuedMessage list" where
  "resend_loop net c [] = (c, [])"
| "resend_loop net c (queued_msg # rest) =
    (case client_publish net c (publication_of queued_msg) of
       None \<Rightarrow> (c, queued_msg # rest)
     | Some c1 \<Rightarrow> resend_loop net c1 rest)"

definition resend_queued_messages ::
  "network \<Rightarrow> SelfAdaptiveMqttManager \<Rightarrow> fault + SelfAdaptiveMqttManager" where
  "resend_queued_messages net s =
    (if message_queue s = [] then Inr s
     else (case client s of
             None \<Rightarrow> Inl Null_dereference
           | Some c \<Rightarrow>
              (case resend_loop net c (message_queue s) of
                 (c1, q1) \<Rightarrow> Inr (s\<lparr>client := Some c1, message_queue := q1\<rparr>))))"

definition publish ::
  "network \<Rightarrow> nat \<Rightarrow> string \<Rightarrow> string \<Rightarrow> int \<Rightarrow> bool \<Rightarrow> SelfAdaptiveMqttManager
     \<Rightarrow> fault + (delivery_token option \<times> SelfAdaptiveMqttManager)" where
  "publish net now t p q r s =
    (if \<not> is_connected s then Inr (None, add_message_to_queue now t p q r s)
     else (case client s of
             None \<Rightarrow> Inl Null_dereference
           | Some c \<Rightarrow>
              (case client_publish net c (t, p, q, r) of
                 Some c1 \<Rightarrow> Inr (Some (Delivery_token (t, p, q, r)), s\<lparr>client := Some c1\<rparr>)
               | None \<Rightarrow> Inr (None, add_message_to_queue now t p q r s))))"

definition create_client :: "string \<Rightarrow> SelfAdaptiveMqttManager \<Rightarrow> SelfAdaptiveMqttManager" where
  "create_client broker_uri s = s\<lparr>client := Some (new_async_client broker_uri)\<rparr>"

definition destroy_client :: "SelfAdaptiveMqttManager \<Rightarrow> SelfAdaptiveMqttManager" where
  "destroy_client s = s\<lparr>client := None\<rparr>"

definition try_connect_to_broker ::
  "network \<Rightarrow> string \<Rightarrow> SelfAdaptiveMqttManager \<Rightarrow> bool \<times> SelfAdaptiveMqttManager" where
  "try_connect_to_broker net broker_uri s = (accepts net broker_uri, create_client broker_uri s)"

text \<open>
  The loop that \<open>connect\<close>, \<open>handle_connection_failure\<close> and \<open>switch_to_best_broker\<close> each
  run over \<open>get_all_brokers()\<close>: the URIs of the available brokers, in registration order.
\<close>

definition available_broker_uris :: "BrokerListManager \<Rightarrow> string list" where
  "available_broker_uris m = map uri (filter is_available (get_all_brokers m))"

text \<open>
  What \<open>connect\<close>, \<open>handle_connection_failure\<close> and \<open>switch_to_best_broker\<close> do after a
  successful \<open>try_connect_to_broker\<close>: the broker becomes current, the flags are set, the
  try index is set to \<open>i\<close>, and the queue is resent.
\<close>

definition connection_established ::
  "network \<Rightarrow> string \<Rightarrow> nat \<Rightarrow> SelfAdaptiveMqttManager \<Rightarrow> fault + SelfAdaptiveMqttManager" where
  "connection_established net target_uri i s =
    resend_queued_messages net
      (s\<lparr>broker_manager := snd (set_current_broker target_uri (broker_manager s)),
         is_connected := True, is_connecting := False, current_broker_try_index := i\<rparr>)"

text \<open>
  The loop \<^verbatim>\<open>for (size_t i = 0; i < broker_uris.size(); ++i)\<close> of \<open>connect\<close>, on the
  URIs from position \<open>i\<close> on, and the statements after it. The handler
  \<^verbatim>\<open>catch (const std::exception& e)\<close> around the body of \<open>connect\<close> has no branch here:
  \<open>try_connect_to_broker\<close> and \<open>resend_queued_messages\<close> catch what the client throws.
\<close>

fun connect_loop ::
  "network \<Rightarrow> string list \<Rightarrow> nat \<Rightarrow> SelfAdaptiveMqttManager
     \<Rightarrow> fault + (bool \<times> SelfAdaptiveMqttManager)" where
  "connect_loop net [] i s = Inr (False, s\<lparr>is_connecting := False\<rparr>)"
| "connect_loop net (target_uri # rest) i s =
    (case try_connect_to_broker net target_uri s of
       (True, s1) \<Rightarrow>
         (case connection_established net target_uri i s1 of
            Inl f \<Rightarrow> Inl f
          | Inr s2 \<Rightarrow> Inr (True, s2))
     | (False, s1) \<Rightarrow>
         connect_loop net rest (Suc i)
           (s1\<lparr>broker_manager := mark_broker_unavailable target_uri (broker_manager s1)\<rparr>))"

definition connect ::
  "network \<Rightarrow> SelfAdaptiveMqttManager \<Rightarrow> fault + (bool \<times> SelfAdaptiveMqttManager)" where
  "connect net s =
    (if is_connected s \<or> is_connecting s then Inr (is_connected s, s)
     else (let s1 = s\<lparr>is_connecting := True\<rparr>;
               broker_uris = available_broker_uris (broker_manager s1)
           in if broker_uris = [] then Inr (False, s1\<lparr>is_connecting := False\<rparr>)
              else connect_loop net broker_uris 0 s1))"

text \<open>
  \<open>handle_connection_failure\<close> calls itself after a failed attempt. The first argument
  bounds the depth of the recursion; the \<open>sleep_for\<close> of the last branch changes no state.
\<close>

fun handle_connection_failure ::
  "nat \<Rightarrow> network \<Rightarrow> string \<Rightarrow> SelfAdaptiveMqttManager \<Rightarrow> fault + SelfAdaptiveMqttManager" where
  "handle_connection_failure 0 net failed_uri s = Inl Out_of_fuel"
| "handle_connection_failure (Suc fuel) net failed_uri s =
    (let s1 = s\<lparr>broker_manager := mark_broker_unavailable failed_uri (broker_manager s)\<rparr>;
         broker_uris = available_broker_uris (broker_manager s1)
     in if broker_uris = [] then Inr s1
        else if current_broker_try_index s1 < length broker_uris then
          (let next_uri = broker_uris ! current_broker_try_index s1
           in (case try_connect_to_broker net next_uri s1 of
                 (True, s2) \<Rightarrow> connection_established net next_uri 0 s2
               | (False, s2) \<Rightarrow>
                   handle_connection_failure fuel net next_uri
                     (s2\<lparr>current_broker_try_index := current_broker_try_index s2 + 1\<rparr>)))
        else Inr (s1\<lparr>current_broker_try_index := 0, is_connecting := False\<rparr>))"

definition switch_to_best_broker ::
  "nat \<Rightarrow> network \<Rightarrow> SelfAdaptiveMqttManager \<Rightarrow> fault + SelfAdaptiveMqttManager" where
  "switch_to_best_broker fuel net s =
    (if is_connecting s then Inr s
     else (let s1 = destroy_client (s\<lparr>is_connecting := True\<rparr>);
               broker_uris = available_broker_uris (broker_manager s1)
           in if broker_uris = [] then Inr (s1\<lparr>is_connecting := False\<rparr>)
              else (let s2 = (if current_broker_try_index s1 \<ge> length broker_uris
                              then s1\<lparr>current_broker_try_index := 0\<rparr> else s1);
                        target_uri = broker_uris ! current_broker_try_index s2
                    in (case try_connect_to_broker net target_uri s2 of
                          (True, s3) \<Rightarrow> connection_established net target_uri 0 s3
                        | (False, s3) \<Rightarrow>
                            (case handle_connection_failure fuel net target_uri
                                    (s3\<lparr>current_broker_try_index :=
                                          current_broker_try_index s3 + 1\<rparr>) of
                               Inl f \<Rightarrow> Inl f
                             | Inr s4 \<Rightarrow> Inr (s4\<lparr>is_connecting := False\<rparr>))))))"

definition on_broker_switch ::
  "nat \<Rightarrow> network \<Rightarrow> string \<Rightarrow> SelfAdaptiveMqttManager \<Rightarrow> fault + SelfAdaptiveMqttManager" where
  "on_broker_switch fuel net new_broker_uri s =
    (if should_switch_broker (broker_manager s) then switch_to_best_broker fuel net s
     else Inr s)"

text \<open>A run of \<open>add_message_to_queue\<close> calls, each with its clock reading and arguments.\<close>

type_synonym enqueue_request = "nat \<times> string \<times> string \<times> int \<times> bool"

fun queued_message :: "enqueue_request \<Rightarrow> QueuedMessage" where
  "queued_message (now, t, p, q, r) =
    \<lparr>topic = t, payload = p, qos = q, retained = r, timestamp = now\<rparr>"

fun enqueue_all :: "enqueue_request list \<Rightarrow> SelfAdaptiveMqttManager \<Rightarrow> SelfAdaptiveMqttManager" where
  "enqueue_all [] s = s"
| "enqueue_all ((now, t, p, q, r) # rest) s = enqueue_all rest (add_message_to_queue now t p q r s)"

section \<open>Registry operations as data, and the invariants of the registry\<close>

text \<open>
  The mutating operations of the registry, so that a state reached by any sequence of
  calls can be named. \<open>set_current_broker\<close> also returns a flag; only the state matters
  here.
\<close>

datatype registry_op =
    Add nat string
  | Remove string
  | Clear
  | Update_metrics nat string real real int
  | Mark_unavailable string
  | Mark_available string
  | Set_current string

fun apply_op :: "registry_op \<Rightarrow> BrokerListManager \<Rightarrow> BrokerListManager" where
  "apply_op (Add now u) m = add_broker now u m"
| "apply_op (Remove u) m = remove_broker u m"
| "apply_op Clear m = clear_brokers m"
| "apply_op (Update_metrics now u lat bw cc) m = update_broker_metrics now u lat bw cc m"
| "apply_op (Mark_unavailable u) m = mark_broker_unavailable u m"
| "apply_op (Mark_available u) m = mark_broker_available u m"
| "apply_op (Set_current u) m = snd (set_current_broker u m)"

fun run_ops :: "registry_op list \<Rightarrow> BrokerListManager \<Rightarrow> BrokerListManager" where
  "run_ops [] m = m"
| "run_ops (op # ops) m = run_ops ops (apply_op op m)"

definition weights_ok :: "ScoreWeights \<Rightarrow> bool" where
  "weights_ok w \<longleftrightarrow> 0 \<le> w_latency w \<and> 0 \<le> w_bandwidth w \<and> 0 \<le> w_connection w
     \<and> w_latency w + w_bandwidth w + w_connection w = 1"

definition score_inv :: "BrokerInfo \<Rightarrow> bool" where
  "score_inv b \<longleftrightarrow> 0 \<le> score b \<and> score b \<le> 1 \<and> (is_available b \<or> score b = 0)"

definition registry_inv :: "BrokerListManager \<Rightarrow> bool" where
  "registry_inv m \<longleftrightarrow> list_all score_inv (brokers m)"

definition index_inv :: "BrokerListManager \<Rightarrow> bool" where
  "index_inv m \<longleftrightarrow>
     (if brokers m = [] then current_broker_index m = 0
      else current_broker_index m < length (brokers m))"


section \<open>Concrete scenarios\<close>



text \<open>Networks: every broker connects; none does; all but A do; one payload is refused.\<close>

definition network_up :: network where
  "network_up = \<lparr>accepts = (\<lambda>u. True), publish_throws = (\<lambda>c p. False)\<rparr>"



definition network_rejecting :: "string \<Rightarrow> network" where
  "network_rejecting bad =
     \<lparr>accepts = (\<lambda>u. True), publish_throws = (\<lambda>c p. fst (snd p) = bad)\<rparr>"

text \<open>
  A manager connected to A, the first of the registered brokers A and B, after the
  monitor has measured both: A has score 0.5 and B has score 0.92 under the weights of
  \<open>sensor\<close>.
\<close>

definition swap_registry :: BrokerListManager where
  "swap_registry =
     run_ops [Add 0 ''A'', Add 0 ''B'',
              Update_metrics 1 ''A'' 50 500000 50, Update_metrics 2 ''B'' 10 2000000 10]
       (new_BrokerListManager ''sensor'')"

definition swap_manager :: SelfAdaptiveMqttManager where
  "swap_manager =
     \<lparr>client = Some (new_async_client ''A''), broker_manager = swap_registry,
      is_connected = True, is_connecting = False, message_queue = [],
      current_broker_try_index = 0\<rparr>"

text \<open>A manager whose queue is full, and a connected manager with three queued messages.\<close>

definition full_queue_manager :: SelfAdaptiveMqttManager where
  "full_queue_manager =
     (new_SelfAdaptiveMqttManager ''sensor'')
       \<lparr>message_queue := replicate 1000 (queued_message (0, ''t'', ''old'', 1, False))\<rparr>"

definition three_queued_manager :: SelfAdaptiveMqttManager where
  "three_queued_manager =
     swap_manager\<lparr>message_queue :=
       [queued_message (1, ''t'', ''p1'', 1, False), queued_message (2, ''t'', ''p2'', 1, False),
        queued_message (3, ''t'', ''p3'', 1, False)]\<rparr>"

section \<open>Lemmas about the list helpers\<close>

lemma find_if_None_iff: "find_if P xs = None \<longleftrightarrow> (\<forall>x\<in>set xs. \<not> P x)"
  by (induction xs) (auto split: option.splits)

lemma find_if_Some_less: "find_if P xs = Some i \<Longrightarrow> i < length xs \<and> P (xs ! i)"
  by (induction xs arbitrary: i) (auto split: option.splits if_splits)

lemma find_if_append_new:
  "find_if P xs = None \<Longrightarrow> P y \<Longrightarrow> find_if P (xs @ [y]) = Some (length xs)"
  by (induction xs) (auto split: option.splits if_splits)

lemma length_update_first [simp]: "length (update_first P f xs) = length xs"
  by (induction xs) auto

lemma list_all_update_first:
  "list_all Q xs \<Longrightarrow> (\<And>x. Q x \<Longrightarrow> Q (f x)) \<Longrightarrow> list_all Q (update_first P f xs)"
  by (induction xs) auto

lemma list_all_take_drop:
  "list_all Q xs \<Longrightarrow> list_all Q (take i xs) \<and> list_all Q (drop j xs)"
  by (auto simp: list_all_iff dest: in_set_takeD in_set_dropD)

section \<open>The score model\<close>

lemma table_weights_ok: "list_all (\<lambda>(c, w). weights_ok w) CATEGORY_WEIGHTS"
  by (simp add: CATEGORY_WEIGHTS_def weights_ok_def)

lemma sensor_in_table:
  "map_of CATEGORY_WEIGHTS ''sensor''
     = Some \<lparr>w_latency = 6/10, w_bandwidth = 2/10, w_connection = 2/10\<rparr>"
  by (simp add: CATEGORY_WEIGHTS_def)

lemma category_weights_ok: "weights_ok (category_weights c)"
proof (cases "map_of CATEGORY_WEIGHTS c")
  case None
  then show ?thesis
    by (simp add: category_weights_def sensor_in_table weights_ok_def)
next
  case (Some w)
  then have "(c, w) \<in> set CATEGORY_WEIGHTS" by (rule map_of_SomeD)
  with table_weights_ok have "weights_ok w" by (auto simp: list_all_iff)
  with Some show ?thesis by (simp add: category_weights_def)
qed

lemma latency_score_bounds: "0 \<le> latency_score b \<and> latency_score b \<le> 1"
  by (simp add: latency_score_def LATENCY_BASELINE_def)

lemma bandwidth_score_bounds: "0 \<le> bandwidth_score b \<and> bandwidth_score b \<le> 1"
  by (simp add: bandwidth_score_def BANDWIDTH_BASELINE_def)

lemma connection_score_bounds: "0 \<le> connection_score b \<and> connection_score b \<le> 1"
  by (simp add: connection_score_def CONNECTION_BASELINE_def)

lemma weighted_sum_bounds:
  fixes a b c :: real
  assumes "0 \<le> a" "a \<le> 1" "0 \<le> b" "b \<le> 1" "0 \<le> c" "c \<le> 1"
    and "0 \<le> wa" "0 \<le> wb" "0 \<le> wc" "wa + wb + wc = 1"
  shows "0 \<le> a * wa + b * wb + c * wc \<and> a * wa + b * wb + c * wc \<le> 1"
proof -
  have "a * wa \<le> wa" "b * wb \<le> wb" "c * wc \<le> wc"
    using assms by (simp_all add: mult_left_le_one_le)
  moreover have "0 \<le> a * wa" "0 \<le> b * wb" "0 \<le> c * wc"
    using assms by simp_all
  ultimately show ?thesis using assms by linarith
qed

lemma update_score_inv: "weights_ok w \<Longrightarrow> score_inv (update_score w b)"
  using weighted_sum_bounds [of "latency_score b" "bandwidth_score b" "connection_score b"
      "w_latency w" "w_bandwidth w" "w_connection w"]
    latency_score_bounds [of b] bandwidth_score_bounds [of b] connection_score_bounds [of b]
  by (simp add: update_score_def score_inv_def weights_ok_def Let_def)

text \<open>
  C2. For every broker record (hence every metrics triple \<open>latency\<close>, \<open>bandwidth\<close>,
  \<open>connection_count\<close>) and every weight profile \<open>w\<close> (hence every entry of
  \<open>CATEGORY_WEIGHTS\<close>), \<open>update_score\<close> changes the score only, and sets it to
  \<open>w_latency * latency_component + w_bandwidth * bandwidth_component +
  w_connection * connection_component\<close> when the broker is available and to 0 when it is
  not, where the latency component is \<open>max 0 (1 - latency / 100)\<close> for a positive
  latency and 0 otherwise, the bandwidth component is \<open>min 1 (bandwidth / 1000000)\<close> for a
  positive bandwidth and 0 otherwise, and the connection component is
  \<open>max 0 (1 - connection_count / 100)\<close> for a positive count and 0 otherwise. The result
  is a function of the record and the weights alone: equal inputs give equal scores.
\<close>

theorem update_score_formula:
  "update_score w b =
     b\<lparr>score :=
        (if is_available b
         then w_latency w * (if latency b > 0 then max 0 (1 - latency b / 100) else 0)
            + w_bandwidth w * (if bandwidth b > 0 then min 1 (bandwidth b / 1000000) else 0)
            + w_connection w *
                (if connection_count b > 0
                 then max 0 (1 - real_of_int (connection_count b) / 100) else 0)
         else 0)\<rparr>"
  by (simp add: update_score_def latency_score_def bandwidth_score_def connection_score_def
      LATENCY_BASELINE_def BANDWIDTH_BASELINE_def CONNECTION_BASELINE_def Let_def mult.commute)

section \<open>The registry\<close>

lemma brokers_remove_broker:
  "brokers (remove_broker u m) =
     (case find_if (\<lambda>b. uri b = u) (brokers m) of
        None \<Rightarrow> brokers m
      | Some i \<Rightarrow> take i (brokers m) @ drop (Suc i) (brokers m))"
  by (simp add: remove_broker_def Let_def split: option.splits)

lemma apply_op_registry_inv: "registry_inv m \<Longrightarrow> registry_inv (apply_op op m)"
proof (cases op)
  case (Add now u)
  assume "registry_inv m"
  then show ?thesis using Add
    by (auto simp: registry_inv_def add_broker_def Let_def new_BrokerInfo_def score_inv_def
        split: option.splits)
next
  case (Remove u)
  assume "registry_inv m"
  then show ?thesis using Remove
    by (simp add: registry_inv_def brokers_remove_broker list_all_take_drop
        split: option.splits)
next
  case Clear
  then show ?thesis by (simp add: registry_inv_def clear_brokers_def)
next
  case (Update_metrics now u lat bw cc)
  assume "registry_inv m"
  then show ?thesis using Update_metrics
    by (simp add: registry_inv_def update_broker_metrics_def Let_def
        list_all_update_first update_score_inv category_weights_ok)
next
  case (Mark_unavailable u)
  assume "registry_inv m"
  then show ?thesis using Mark_unavailable
    by (simp add: registry_inv_def mark_broker_unavailable_def
        list_all_update_first score_inv_def)
next
  case (Mark_available u)
  assume "registry_inv m"
  then show ?thesis using Mark_available
    by (simp add: registry_inv_def mark_broker_available_def Let_def
        list_all_update_first update_score_inv category_weights_ok)
next
  case (Set_current u)
  assume "registry_inv m"
  then show ?thesis using Set_current
    by (auto simp: registry_inv_def set_current_broker_def split: option.splits)
qed

lemma run_ops_registry_inv: "registry_inv m \<Longrightarrow> registry_inv (run_ops ops m)"
  by (induction ops arbitrary: m) (auto simp: apply_op_registry_inv)

lemma new_registry_inv: "registry_inv (new_BrokerListManager c)"
  by (simp add: registry_inv_def new_BrokerListManager_def)

lemma apply_op_index_inv: "index_inv m \<Longrightarrow> index_inv (apply_op op m)"
proof (cases op)
  case (Add now u)
  assume "index_inv m"
  then show ?thesis using Add
    by (auto simp: index_inv_def add_broker_def Let_def split: option.splits if_splits)
next
  case (Remove u)
  assume "index_inv m"
  then show ?thesis using Remove
    by (auto simp: index_inv_def remove_broker_def Let_def min_def
        split: option.splits if_splits dest!: find_if_Some_less)
next
  case Clear
  then show ?thesis by (simp add: index_inv_def clear_brokers_def)
next
  case (Update_metrics now u lat bw cc)
  assume "index_inv m"
  then show ?thesis using Update_metrics
    by (cases "brokers m") (auto simp: index_inv_def update_broker_metrics_def Let_def)
next
  case (Mark_unavailable u)
  assume "index_inv m"
  then show ?thesis using Mark_unavailable
    by (cases "brokers m") (auto simp: index_inv_def mark_broker_unavailable_def)
next
  case (Mark_available u)
  assume "index_inv m"
  then show ?thesis using Mark_available
    by (cases "brokers m") (auto simp: index_inv_def mark_broker_available_def Let_def)
next
  case (Set_current u)
  assume "index_inv m"
  then show ?thesis using Set_current
    by (auto simp: index_inv_def set_current_broker_def split: option.splits if_splits
        dest!: find_if_Some_less)
qed

lemma run_ops_index_inv: "index_inv m \<Longrightarrow> index_inv (run_ops ops m)"
  by (induction ops arbitrary: m) (auto simp: apply_op_index_inv)

lemma new_index_inv: "index_inv (new_BrokerListManager c)"
  by (simp add: index_inv_def new_BrokerListManager_def)

lemma add_remove_fresh:
  assumes "find_if (\<lambda>b. uri b = u) (brokers m) = None" and "index_inv m"
  shows "remove_broker u (add_broker now u m) = m"
proof (cases "brokers m = []")
  case True
  with assms show ?thesis
    by (simp add: add_broker_def remove_broker_def index_inv_def Let_def new_BrokerInfo_def)
next
  case False
  have "find_if (\<lambda>b. uri b = u) (brokers m @ [new_BrokerInfo u now]) = Some (length (brokers m))"
    using assms(1) by (intro find_if_append_new) (simp_all add: new_BrokerInfo_def)
  with assms False show ?thesis
    by (simp add: add_broker_def remove_broker_def index_inv_def Let_def)
qed

lemma find_best_loop_unbeaten:
  "\<forall>b\<in>set bs. \<not> (is_available b \<and> score b > s) \<Longrightarrow> find_best_loop bs (x, s) = (x, s)"
  by (induction bs) auto

lemma find_best_loop_Some:
  "\<exists>b\<in>set bs. is_available b \<and> score b > s \<Longrightarrow>
   \<exists>b\<in>set bs. is_available b \<and> fst (find_best_loop bs (x, s)) = Some b"
proof (induction bs arbitrary: x s)
  case Nil
  then show ?case by simp
next
  case (Cons b bs)
  show ?case
  proof (cases "is_available b \<and> score b > s")
    case True
    show ?thesis
    proof (cases "\<exists>c\<in>set bs. is_available c \<and> score c > score b")
      case later: True
      from Cons.IH [OF later, of "Some b"] True show ?thesis by auto
    next
      case False
      then have "find_best_loop bs (Some b, score b) = (Some b, score b)"
        by (intro find_best_loop_unbeaten) auto
      with True show ?thesis by auto
    qed
  next
    case False
    with Cons.prems have "\<exists>c\<in>set bs. is_available c \<and> score c > s" by auto
    from Cons.IH [OF this, of x] False show ?thesis by auto
  qed
qed

lemma find_best_broker_inv:
  assumes "registry_inv m" and "b \<in> set (brokers m)" and "is_available b"
  shows "\<exists>best\<in>set (brokers m). is_available best \<and> find_best_broker m = Some best"
proof -
  from assms(1,2) have "score_inv b" by (auto simp: registry_inv_def list_all_iff)
  then have "score b > - 1" by (simp add: score_inv_def)
  with assms(2,3) have "\<exists>x\<in>set (brokers m). is_available x \<and> score x > - 1" by blast
  from find_best_loop_Some [OF this, of None] assms(2) show ?thesis
    by (auto simp: find_best_broker_def)
qed

lemma example_ops_result:
  "run_ops [Add 0 ''a'', Update_metrics 1 ''a'' 50 500000 50, Mark_unavailable ''a'']
      (new_BrokerListManager ''sensor'')
   = \<lparr>brokers = [\<lparr>uri = ''a'', latency = 50, bandwidth = 500000, connection_count = 50,
                  score = 0, is_available = False, last_check = 1\<rparr>],
      current_broker_index = 0, category_name = ''sensor''\<rparr>"
  by (simp add: new_BrokerListManager_def add_broker_def new_BrokerInfo_def
      update_broker_metrics_def mark_broker_unavailable_def update_score_def Let_def)

lemma example_add_result:
  "run_ops [Add 0 ''a''] (new_BrokerListManager ''sensor'')
   = \<lparr>brokers = [new_BrokerInfo ''a'' 0], current_broker_index = 0, category_name = ''sensor''\<rparr>"
  by (simp add: new_BrokerListManager_def add_broker_def)


text \<open>
  C8. Start from a registry in which every record has a score between 0 and 1 and every
  unavailable record has score 0 (a new registry is one: it has no record). After any
  sequence of the operations add, remove, clear, update_metrics, mark_unavailable,
  mark_available and set_current, every record \<open>b\<close> of the registry has
  \<open>0 \<le> score b \<le> 1\<close>, and \<open>score b = 0\<close> if \<open>b\<close> is not available.
\<close>

theorem score_bounds_after_operations:
  assumes "registry_inv m" and "b \<in> set (brokers (run_ops ops m))"
  shows "0 \<le> score b \<and> score b \<le> 1 \<and> (\<not> is_available b \<longrightarrow> score b = 0)"
proof -
  from assms(1) have "registry_inv (run_ops ops m)" by (rule run_ops_registry_inv)
  with assms(2) have "score_inv b" by (auto simp: registry_inv_def list_all_iff)
  then show ?thesis by (auto simp: score_inv_def)
qed

theorem score_bounds_after_operations_witness:
  "registry_inv (new_BrokerListManager ''sensor'')
   \<and> \<lparr>uri = ''a'', latency = 50, bandwidth = 500000, connection_count = 50,
       score = 0, is_available = False, last_check = 1\<rparr>
      \<in> set (brokers (run_ops
            [Add 0 ''a'', Update_metrics 1 ''a'' 50 500000 50, Mark_unavailable ''a'']
            (new_BrokerListManager ''sensor'')))
   \<and> score \<lparr>uri = ''a'', latency = 50, bandwidth = 500000, connection_count = 50,
       score = 0, is_available = False, last_check = 1\<rparr> = 0"
proof -
  have h1: "registry_inv (new_BrokerListManager ''sensor'')"
    by (rule new_registry_inv)
  have h2: "\<lparr>uri = ''a'', latency = 50, bandwidth = 500000, connection_count = 50,
       score = 0, is_available = False, last_check = 1\<rparr>
      \<in> set (brokers (run_ops
            [Add 0 ''a'', Update_metrics 1 ''a'' 50 500000 50, Mark_unavailable ''a'']
            (new_BrokerListManager ''sensor'')))"
    unfolding example_ops_result by simp
  from score_bounds_after_operations [OF h1 h2] h1 h2 show ?thesis by simp
qed

text \<open>
  C9, as the claim states it, fails: when \<open>u\<close> is already registered, \<open>add_broker\<close>
  returns at its guard and \<open>remove_broker\<close> then deletes the record that was there.
\<close>

theorem add_remove_counterexample:
  "remove_broker ''a'' (add_broker 1 ''a'' (add_broker 0 ''a'' (new_BrokerListManager ''sensor'')))
     \<noteq> add_broker 0 ''a'' (new_BrokerListManager ''sensor'')"
  by (simp add: new_BrokerListManager_def add_broker_def remove_broker_def new_BrokerInfo_def
      Let_def)

text \<open>
  C9, amended. For every registry state reached from a new registry by registry
  operations, and every URI \<open>u\<close> that is not registered in it, \<open>add_broker u\<close> followed by
  \<open>remove_broker u\<close> gives back the same state: same records in the same order, same
  current index.
\<close>

theorem add_remove_unregistered:
  assumes "u \<notin> set (get_broker_uris (run_ops ops (new_BrokerListManager c)))"
  shows "remove_broker u (add_broker now u (run_ops ops (new_BrokerListManager c)))
           = run_ops ops (new_BrokerListManager c)"
proof -
  have "index_inv (run_ops ops (new_BrokerListManager c))"
    by (rule run_ops_index_inv [OF new_index_inv])
  moreover from assms
  have "find_if (\<lambda>b. uri b = u) (brokers (run_ops ops (new_BrokerListManager c))) = None"
    by (auto simp: find_if_None_iff get_broker_uris_def)
  ultimately show ?thesis by (simp add: add_remove_fresh)
qed

theorem add_remove_unregistered_witness:
  "''b'' \<notin> set (get_broker_uris (run_ops [Add 0 ''a''] (new_BrokerListManager ''sensor'')))
   \<and> remove_broker ''b'' (add_broker 1 ''b'' (run_ops [Add 0 ''a''] (new_BrokerListManager ''sensor'')))
       = run_ops [Add 0 ''a''] (new_BrokerListManager ''sensor'')"
proof -
  have h: "''b'' \<notin> set (get_broker_uris (run_ops [Add 0 ''a''] (new_BrokerListManager ''sensor'')))"
    unfolding example_add_result by (simp add: get_broker_uris_def new_BrokerInfo_def)
  from add_remove_unregistered [OF h, of 1] h show ?thesis by simp
qed

text \<open>
  C10. In every registry state reached from a new registry by registry operations, if
  some registered broker is available then \<open>find_best_broker\<close> returns a record, and the
  record is a registered, available one; the scores do not matter, since each is at least
  0 and the search starts from \<open>-1\<close>. In particular a broker that was just added to a new
  registry and never measured (score 0, available) is returned as the best broker.
\<close>

theorem find_best_broker_available:
  assumes "m = run_ops ops (new_BrokerListManager c)"
    and "b \<in> set (brokers m)" and "is_available b"
  shows "(\<exists>best\<in>set (brokers m). is_available best \<and> find_best_broker m = Some best)
       \<and> find_best_broker (add_broker now u (new_BrokerListManager c)) = Some (new_BrokerInfo u now)
       \<and> score (new_BrokerInfo u now) = 0 \<and> is_available (new_BrokerInfo u now)"
proof -
  have "registry_inv m"
    unfolding assms(1) by (rule run_ops_registry_inv [OF new_registry_inv])
  from find_best_broker_inv [OF this assms(2,3)]
  show ?thesis
    by (simp add: find_best_broker_def add_broker_def new_BrokerListManager_def
        new_BrokerInfo_def Let_def)
qed

theorem find_best_broker_available_witness:
  "new_BrokerInfo ''a'' 0 \<in> set (brokers (run_ops [Add 0 ''a''] (new_BrokerListManager ''sensor'')))
   \<and> is_available (new_BrokerInfo ''a'' 0)
   \<and> find_best_broker (run_ops [Add 0 ''a''] (new_BrokerListManager ''sensor''))
       = Some (new_BrokerInfo ''a'' 0)"
proof -
  have h1: "new_BrokerInfo ''a'' 0
      \<in> set (brokers (run_ops [Add 0 ''a''] (new_BrokerListManager ''sensor'')))"
    unfolding example_add_result by simp
  have h2: "is_available (new_BrokerInfo ''a'' 0)"
    by (simp add: new_BrokerInfo_def)
  from find_best_broker_available [OF refl h1 h2, of 0 "''a''"] h1 h2
  show ?thesis unfolding example_add_result by simp
qed

section \<open>The offline queue\<close>

lemma message_queue_add:
  "message_queue (add_message_to_queue now t p q r s) =
     (if length (message_queue s) \<ge> MAX_QUEUE_SIZE then tl (message_queue s) else message_queue s)
       @ [queued_message (now, t, p, q, r)]"
  by (simp add: add_message_to_queue_def Let_def)

lemma drop_excess_snoc:
  assumes "length xs \<le> n" and "0 < n"
  shows "(if length xs \<ge> n then tl xs else xs) @ [x] = drop (length (xs @ [x]) - n) (xs @ [x])"
proof (cases "length xs \<ge> n")
  case True
  with assms have "length xs = n" by simp
  with assms(2) show ?thesis by (cases xs) auto
next
  case False
  then show ?thesis by simp
qed

lemma drop_excess_append:
  "drop (length (drop (length zs - n) zs @ ys) - n) (drop (length zs - n) zs @ ys)
     = drop (length (zs @ ys) - n) (zs @ ys)"
proof (cases "length zs \<le> n")
  case True
  then show ?thesis by simp
next
  case False
  let ?k = "length zs - n"
  from False have len: "length (drop ?k zs) = n" by simp
  have "drop (length (zs @ ys) - n) (zs @ ys) = drop (length ys + ?k) (zs @ ys)"
    using False by (simp add: add.commute)
  also have "\<dots> = drop (length ys) (drop ?k (zs @ ys))"
    by (simp only: drop_drop)
  also have "drop ?k (zs @ ys) = drop ?k zs @ ys"
    by simp
  finally show ?thesis using len by simp
qed

lemma message_queue_enqueue_all:
  "length (message_queue s) \<le> MAX_QUEUE_SIZE \<Longrightarrow>
   message_queue (enqueue_all rs s) =
     drop (length (message_queue s @ map queued_message rs) - MAX_QUEUE_SIZE)
          (message_queue s @ map queued_message rs)"
proof (induction rs arbitrary: s)
  case Nil
  then show ?case by simp
next
  case (Cons a rs)
  obtain now t p q r where a: "a = (now, t, p, q, r)" by (cases a)
  let ?x = "queued_message (now, t, p, q, r)"
  let ?q = "message_queue s"
  let ?s1 = "add_message_to_queue now t p q r s"
  have q1: "message_queue ?s1 = drop (length (?q @ [?x]) - MAX_QUEUE_SIZE) (?q @ [?x])"
    unfolding message_queue_add
    by (rule drop_excess_snoc) (use Cons.prems in \<open>simp_all add: MAX_QUEUE_SIZE_def\<close>)
  then have len: "length (message_queue ?s1) \<le> MAX_QUEUE_SIZE"
    using Cons.prems by (simp add: MAX_QUEUE_SIZE_def)
  have "message_queue (enqueue_all (a # rs) s) = message_queue (enqueue_all rs ?s1)"
    by (simp add: a)
  also have "\<dots> = drop (length (message_queue ?s1 @ map queued_message rs) - MAX_QUEUE_SIZE)
          (message_queue ?s1 @ map queued_message rs)"
    by (rule Cons.IH [OF len])
  also have "\<dots> = drop (length (?q @ map queued_message (a # rs)) - MAX_QUEUE_SIZE)
          (?q @ map queued_message (a # rs))"
    unfolding q1 using drop_excess_append [of "?q @ [?x]" MAX_QUEUE_SIZE "map queued_message rs"]
    by (simp add: a)
  finally show ?case .
qed

text \<open>
  C5. A queue that holds at most 1000 entries (the empty queue of a new manager is one)
  holds at most 1000 entries after any sequence of \<open>add_message_to_queue\<close> calls. A call
  made while the queue holds 1000 entries removes the oldest entry, and nothing else, and
  appends the new entry. Enqueuing the 1001 messages numbered 1 to 1001 into an empty
  queue leaves the messages 2 to 1001, in order.
\<close>

theorem offline_queue_bound:
  assumes "length (message_queue s) \<le> 1000"
  shows "length (message_queue (enqueue_all rs s)) \<le> 1000
       \<and> (length (message_queue s) = 1000 \<longrightarrow>
            message_queue (add_message_to_queue now t p q r s)
              = tl (message_queue s)
                @ [\<lparr>topic = t, payload = p, qos = q, retained = r, timestamp = now\<rparr>])
       \<and> message_queue (enqueue_all (map numbered [1..<1002]) (clear_message_queue s))
              = map (\<lambda>n. queued_message (numbered n)) [2..<1002]"
proof -
  from assms have le: "length (message_queue s) \<le> MAX_QUEUE_SIZE"
    by (simp add: MAX_QUEUE_SIZE_def)
  have "length (message_queue (enqueue_all rs s)) \<le> 1000"
    unfolding message_queue_enqueue_all [OF le] by (simp add: MAX_QUEUE_SIZE_def)
  moreover have "length (message_queue s) = 1000 \<longrightarrow>
            message_queue (add_message_to_queue now t p q r s)
              = tl (message_queue s)
                @ [\<lparr>topic = t, payload = p, qos = q, retained = r, timestamp = now\<rparr>]"
    by (simp add: message_queue_add MAX_QUEUE_SIZE_def)
  moreover have "message_queue (enqueue_all (map numbered [1..<1002]) (clear_message_queue s))
              = map (\<lambda>n. queued_message (numbered n)) [2..<1002]"
  proof -
    have "length (message_queue (clear_message_queue s)) \<le> MAX_QUEUE_SIZE"
      by (simp add: clear_message_queue_def)
    from message_queue_enqueue_all [OF this, of "map numbered [1..<1002]"]
    have "message_queue (enqueue_all (map numbered [1..<1002]) (clear_message_queue s))
            = drop 1 (map queued_message (map numbered [1..<1002]))"
      by (simp add: clear_message_queue_def MAX_QUEUE_SIZE_def)
    also have "\<dots> = map (\<lambda>n. queued_message (numbered n)) (drop 1 [1..<1002])"
      by (simp only: drop_map map_map comp_def)
    also have "drop 1 [1..<1002] = [2..<1002]"
      by (simp only: drop_upt one_add_one)
    finally show ?thesis .
  qed
  ultimately show ?thesis by blast
qed

theorem offline_queue_bound_witness:
  "length (message_queue full_queue_manager) \<le> 1000
   \<and> length (message_queue full_queue_manager) = 1000
   \<and> length (message_queue (enqueue_all [(8, ''t'', ''p'', 1, False)] full_queue_manager)) \<le> 1000
   \<and> message_queue (add_message_to_queue 7 ''t'' ''new'' 1 False full_queue_manager)
       = tl (message_queue full_queue_manager)
         @ [\<lparr>topic = ''t'', payload = ''new'', qos = 1, retained = False, timestamp = 7\<rparr>]"
proof -
  have h: "length (message_queue full_queue_manager) \<le> 1000"
    by (simp add: full_queue_manager_def)
  have e: "length (message_queue full_queue_manager) = 1000"
    by (simp add: full_queue_manager_def)
  from offline_queue_bound [OF h, of "[(8, ''t'', ''p'', 1, False)]" 7 "''t''" "''new''" 1 False] h e
  show ?thesis by blast
qed

section \<open>Resending the queue\<close>

lemma resend_loop_split:
  "\<exists>n\<le>length q.
     resend_loop net c q
       = (c\<lparr>delivered := delivered c @ map publication_of (take n q)\<rparr>, drop n q)
     \<and> (\<forall>k<n. \<not> publish_throws net
                  (c\<lparr>delivered := delivered c @ map publication_of (take k q)\<rparr>)
                  (publication_of (q ! k)))
     \<and> (n < length q \<longrightarrow>
          publish_throws net
            (c\<lparr>delivered := delivered c @ map publication_of (take n q)\<rparr>)
            (publication_of (q ! n)))"
proof (induction q arbitrary: c)
  case Nil
  then show ?case by simp
next
  case (Cons x xs)
  show ?case
  proof (cases "publish_throws net c (publication_of x)")
    case True
    then have "resend_loop net c (x # xs) = (c, x # xs)"
      by (simp add: client_publish_def publication_of_def)
    with True show ?thesis by (intro exI [of _ 0]) simp
  next
    case False
    let ?c1 = "c\<lparr>delivered := delivered c @ [publication_of x]\<rparr>"
    from Cons.IH [of ?c1] obtain n where n: "n \<le> length xs"
      and eq: "resend_loop net ?c1 xs
         = (?c1\<lparr>delivered := delivered ?c1 @ map publication_of (take n xs)\<rparr>, drop n xs)"
      and before: "\<forall>k<n. \<not> publish_throws net
                  (?c1\<lparr>delivered := delivered ?c1 @ map publication_of (take k xs)\<rparr>)
                  (publication_of (xs ! k))"
      and at: "n < length xs \<longrightarrow>
          publish_throws net
            (?c1\<lparr>delivered := delivered ?c1 @ map publication_of (take n xs)\<rparr>)
            (publication_of (xs ! n))"
      by blast
    have loop: "resend_loop net c (x # xs) = resend_loop net ?c1 xs"
      using False by (simp add: client_publish_def publication_of_def)
    have "\<forall>k<Suc n. \<not> publish_throws net
                  (c\<lparr>delivered := delivered c @ map publication_of (take k (x # xs))\<rparr>)
                  (publication_of ((x # xs) ! k))"
    proof (intro allI impI)
      fix k assume "k < Suc n"
      show "\<not> publish_throws net
                  (c\<lparr>delivered := delivered c @ map publication_of (take k (x # xs))\<rparr>)
                  (publication_of ((x # xs) ! k))"
      proof (cases k)
        case 0
        with False show ?thesis by simp
      next
        case (Suc j)
        with \<open>k < Suc n\<close> before have "\<not> publish_throws net
                  (?c1\<lparr>delivered := delivered ?c1 @ map publication_of (take j xs)\<rparr>)
                  (publication_of (xs ! j))" by simp
        with Suc show ?thesis by simp
      qed
    qed
    with n eq at loop show ?thesis
      by (intro exI [of _ "Suc n"]) simp
  qed
qed

text \<open>
  C6. With an active client \<open>c\<close>, \<open>resend_queued_messages\<close> returns, and there is a number
  \<open>n\<close> of entries such that: the first \<open>n\<close> entries of the queue are handed to the client
  in queue order (they are appended, in that order, to what the client has accepted) and
  only they are removed; none of these publishes threw; and if an entry is left, then the
  publish of entry \<open>n\<close> threw, and this entry and all later ones are still in the queue, in
  their original order.
\<close>

theorem resend_queued_messages_fifo:
  assumes "client s = Some c"
  shows "\<exists>n\<le>length (message_queue s).
     resend_queued_messages net s
       = Inr (s\<lparr>client := Some (c\<lparr>delivered := delivered c
                                      @ map publication_of (take n (message_queue s))\<rparr>),
               message_queue := drop n (message_queue s)\<rparr>)
     \<and> (\<forall>k<n. \<not> publish_throws net
                  (c\<lparr>delivered := delivered c @ map publication_of (take k (message_queue s))\<rparr>)
                  (publication_of (message_queue s ! k)))
     \<and> (n < length (message_queue s) \<longrightarrow>
          publish_throws net
            (c\<lparr>delivered := delivered c @ map publication_of (take n (message_queue s))\<rparr>)
            (publication_of (message_queue s ! n)))"
proof (cases "message_queue s = []")
  case True
  have "s\<lparr>client := Some c\<rparr> = s"
    using assms by (metis SelfAdaptiveMqttManager.surjective SelfAdaptiveMqttManager.update_convs(1))
  with True show ?thesis
    by (intro exI [of _ 0]) (simp add: resend_queued_messages_def)
next
  case False
  from resend_loop_split [of "message_queue s" net c] obtain n
    where "n \<le> length (message_queue s)"
      and "resend_loop net c (message_queue s)
         = (c\<lparr>delivered := delivered c @ map publication_of (take n (message_queue s))\<rparr>,
            drop n (message_queue s))"
      and "\<forall>k<n. \<not> publish_throws net
                  (c\<lparr>delivered := delivered c @ map publication_of (take k (message_queue s))\<rparr>)
                  (publication_of (message_queue s ! k))"
      and "n < length (message_queue s) \<longrightarrow>
          publish_throws net
            (c\<lparr>delivered := delivered c @ map publication_of (take n (message_queue s))\<rparr>)
            (publication_of (message_queue s ! n))"
    by blast
  with False assms show ?thesis
    by (intro exI [of _ n]) (simp add: resend_queued_messages_def)
qed

theorem resend_queued_messages_fifo_witness:
  "client three_queued_manager = Some (new_async_client ''A'')
   \<and> resend_queued_messages (network_rejecting ''p2'') three_queued_manager
       = Inr (three_queued_manager
               \<lparr>client := Some \<lparr>server_uri = ''A'', delivered = [(''t'', ''p1'', 1, False)]\<rparr>,
                 message_queue := [queued_message (2, ''t'', ''p2'', 1, False),
                                   queued_message (3, ''t'', ''p3'', 1, False)]\<rparr>)"
proof -
  have h: "client three_queued_manager = Some (new_async_client ''A'')"
    by (simp add: three_queued_manager_def swap_manager_def)
  from resend_queued_messages_fifo [OF h, of "network_rejecting ''p2''"] h
  show ?thesis
    by (simp add: three_queued_manager_def swap_manager_def resend_queued_messages_def
        client_publish_def publication_of_def network_rejecting_def new_async_client_def)
qed

section \<open>Publishing\<close>

text \<open>
  C7. If the manager is not connected, or it is connected and the publish on the active
  client throws, then \<open>publish\<close> returns normally (no exception leaves it), the token it
  returns is \<open>nullptr\<close>, and the message is the last entry of the queue afterwards; the
  entries before it are those of the old queue, without the oldest one when the queue was
  full.
\<close>

theorem publish_queues_on_failure:
  assumes "\<not> is_connected s \<or> (\<exists>c. client s = Some c \<and> publish_throws net c (t, p, q, r))"
  shows "publish net now t p q r s = Inr (None, add_message_to_queue now t p q r s)
       \<and> message_queue (add_message_to_queue now t p q r s)
           = (if length (message_queue s) \<ge> 1000 then tl (message_queue s) else message_queue s)
             @ [\<lparr>topic = t, payload = p, qos = q, retained = r, timestamp = now\<rparr>]"
  using assms
  by (auto simp: publish_def client_publish_def message_queue_add MAX_QUEUE_SIZE_def)

theorem publish_queues_on_failure_witness:
  "\<not> is_connected (new_SelfAdaptiveMqttManager ''sensor'')
   \<and> publish network_up 5 ''t'' ''p'' 1 False (new_SelfAdaptiveMqttManager ''sensor'')
       = Inr (None, (new_SelfAdaptiveMqttManager ''sensor'')
               \<lparr>message_queue :=
                  [\<lparr>topic = ''t'', payload = ''p'', qos = 1, retained = False, timestamp = 5\<rparr>]\<rparr>)
   \<and> is_connected swap_manager
   \<and> client swap_manager = Some (new_async_client ''A'')
   \<and> publish_throws (network_rejecting ''p'') (new_async_client ''A'') (''t'', ''p'', 1, False)
   \<and> publish (network_rejecting ''p'') 5 ''t'' ''p'' 1 False swap_manager
       = Inr (None, swap_manager
               \<lparr>message_queue :=
                  [\<lparr>topic = ''t'', payload = ''p'', qos = 1, retained = False, timestamp = 5\<rparr>]\<rparr>)"
proof -
  have h1: "\<not> is_connected (new_SelfAdaptiveMqttManager ''sensor'')"
    by (simp add: new_SelfAdaptiveMqttManager_def)
  have h2: "client swap_manager = Some (new_async_client ''A'')" "is_connected swap_manager"
    by (simp_all add: swap_manager_def)
  have h3: "publish_throws (network_rejecting ''p'') (new_async_client ''A'') (''t'', ''p'', 1, False)"
    by (simp add: network_rejecting_def)
  from h2 h3 have h4: "\<not> is_connected swap_manager
      \<or> (\<exists>c. client swap_manager = Some c
            \<and> publish_throws (network_rejecting ''p'') c (''t'', ''p'', 1, False))"
    by blast
  have q1: "add_message_to_queue 5 ''t'' ''p'' 1 False (new_SelfAdaptiveMqttManager ''sensor'')
     = (new_SelfAdaptiveMqttManager ''sensor'')
               \<lparr>message_queue :=
                  [\<lparr>topic = ''t'', payload = ''p'', qos = 1, retained = False, timestamp = 5\<rparr>]\<rparr>"
    by (simp add: add_message_to_queue_def new_SelfAdaptiveMqttManager_def MAX_QUEUE_SIZE_def)
  have q2: "add_message_to_queue 5 ''t'' ''p'' 1 False swap_manager
     = swap_manager
               \<lparr>message_queue :=
                  [\<lparr>topic = ''t'', payload = ''p'', qos = 1, retained = False, timestamp = 5\<rparr>]\<rparr>"
    by (simp add: add_message_to_queue_def swap_manager_def MAX_QUEUE_SIZE_def)
  from publish_queues_on_failure [of "new_SelfAdaptiveMqttManager ''sensor''" network_up
      "''t''" "''p''" 1 False 5, OF disjI1, OF h1]
    publish_queues_on_failure [OF h4, of 5]
    h1 h2 h3 q1 q2
  show ?thesis by simp
qed

section \<open>Connecting\<close>



lemma resend_with_client:
  assumes "client s = Some c"
  shows "\<exists>s'. resend_queued_messages net s = Inr s'
     \<and> broker_manager s' = broker_manager s \<and> is_connected s' = is_connected s
     \<and> is_connecting s' = is_connecting s
     \<and> current_broker_try_index s' = current_broker_try_index s"
  using assms by (cases "resend_loop net c (message_queue s)")
    (simp add: resend_queued_messages_def)





lemma uris_update_first:
  "map uri (update_first P (\<lambda>b. b\<lparr>is_available := False, score := 0\<rparr>) bs) = map uri bs"
  by (induction bs) auto

lemma uris_mark:
  "map uri (brokers (mark_broker_unavailable v m)) = map uri (brokers m)"
  by (simp add: mark_broker_unavailable_def uris_update_first)












section \<open>The fall-through returns\<close>

text \<open>
  The registry never holds a URI twice. Each recursive call of
  \<open>handle_connection_failure\<close> then marks one more available broker unavailable, so the
  recursion ends: with as much fuel as there are available brokers,
  \<open>switch_to_best_broker\<close> returns.
\<close>

lemma uris_update_first_general:
  "(\<And>b. uri (f b) = uri b) \<Longrightarrow> map uri (update_first P f bs) = map uri bs"
  by (induction bs) auto

lemma distinct_remove_nth:
  "distinct xs \<Longrightarrow> distinct (take i xs @ drop (Suc i) xs)"
  by (metis Suc_n_not_le_n distinct_append distinct_drop distinct_take le_SucI linorder_le_cases
      set_take_disj_set_drop_if_distinct)

lemma apply_op_distinct_uris:
  assumes "distinct (map uri (brokers m))"
  shows "distinct (map uri (brokers (apply_op op m)))"
proof (cases op)
  case (Add now u)
  show ?thesis
  proof (cases "find_if (\<lambda>b. uri b = u) (brokers m)")
    case None
    then have "u \<notin> set (map uri (brokers m))" by (auto simp: find_if_None_iff)
    with assms None Add show ?thesis
      by (simp add: add_broker_def Let_def new_BrokerInfo_def)
  next
    case (Some i)
    with assms Add show ?thesis by (simp add: add_broker_def)
  qed
next
  case (Remove u)
  from assms have "\<And>i. distinct (map uri (take i (brokers m) @ drop (Suc i) (brokers m)))"
    using distinct_remove_nth [of "map uri (brokers m)"] by (simp add: take_map drop_map)
  with assms Remove show ?thesis
    by (simp add: brokers_remove_broker split: option.splits)
next
  case Clear
  then show ?thesis by (simp add: clear_brokers_def)
next
  case (Update_metrics now u lat bw cc)
  with assms show ?thesis
    by (simp add: update_broker_metrics_def Let_def uris_update_first_general update_score_def)
next
  case (Mark_unavailable u)
  with assms show ?thesis by (simp add: uris_mark)
next
  case (Mark_available u)
  with assms show ?thesis
    by (simp add: mark_broker_available_def Let_def uris_update_first_general update_score_def)
next
  case (Set_current u)
  with assms show ?thesis by (simp add: set_current_broker_def split: option.splits)
qed

lemma run_ops_distinct_uris:
  "distinct (map uri (brokers m)) \<Longrightarrow> distinct (map uri (brokers (run_ops ops m)))"
  by (induction ops arbitrary: m) (simp_all add: apply_op_distinct_uris)

lemma reachable_distinct_uris:
  "distinct (map uri (brokers (run_ops ops (new_BrokerListManager c))))"
  by (rule run_ops_distinct_uris) (simp add: new_BrokerListManager_def)

lemma available_decreases:
  assumes "distinct (map uri bs)" and "u \<in> set (map uri (filter is_available bs))"
  shows "length (filter is_available
           (update_first (\<lambda>b. uri b = u) (\<lambda>b. b\<lparr>is_available := False, score := 0\<rparr>) bs))
         < length (filter is_available bs)"
  using assms
proof (induction bs)
  case Nil
  then show ?case by simp
next
  case (Cons b bs)
  show ?case
  proof (cases "uri b = u")
    case True
    with Cons.prems(1) have "u \<notin> set (map uri bs)" by auto
    then have "u \<notin> set (map uri (filter is_available bs))" by auto
    with Cons.prems(2) True have "is_available b" by (auto split: if_splits)
    with True show ?thesis by simp
  next
    case False
    with Cons.prems have "u \<in> set (map uri (filter is_available bs))" "distinct (map uri bs)"
      by (auto split: if_splits)
    from Cons.IH [OF this(2,1)] False show ?thesis by simp
  qed
qed

lemma available_count_mark:
  assumes "distinct (map uri (brokers m))" and "u \<in> set (available_broker_uris m)"
  shows "length (available_broker_uris (mark_broker_unavailable u m))
           < length (available_broker_uris m)"
  using available_decreases [OF assms(1), of u] assms(2)
  by (simp add: available_broker_uris_def get_all_brokers_def mark_broker_unavailable_def)

lemma connection_established_returns:
  "client s = Some c \<Longrightarrow> \<exists>s'. connection_established net u i s = Inr s'"
  using resend_with_client [of _ c net]
  by (simp add: connection_established_def) (metis SelfAdaptiveMqttManager.select_convs(1)
      SelfAdaptiveMqttManager.surjective SelfAdaptiveMqttManager.update_convs(2-6))

lemma handle_connection_failure_returns:
  assumes "distinct (map uri (brokers (broker_manager s)))"
    and "length (available_broker_uris (mark_broker_unavailable failed_uri (broker_manager s)))
           < fuel"
  shows "\<exists>s'. handle_connection_failure fuel net failed_uri s = Inr s'"
  using assms
proof (induction fuel arbitrary: s failed_uri)
  case 0
  then show ?case by simp
next
  case (Suc fuel)
  let ?m1 = "mark_broker_unavailable failed_uri (broker_manager s)"
  let ?s1 = "s\<lparr>broker_manager := ?m1\<rparr>"
  let ?uris = "available_broker_uris ?m1"
  let ?i = "current_broker_try_index s"
  have d1: "distinct (map uri (brokers ?m1))"
    using Suc.prems(1) by (simp only: uris_mark)
  show ?case
  proof (cases "?uris = [] \<or> \<not> ?i < length ?uris")
    case True
    then show ?thesis by (auto simp: Let_def)
  next
    case False
    then have i: "?i < length ?uris" and ne: "?uris \<noteq> []" by auto
    let ?next = "?uris ! ?i"
    show ?thesis
    proof (cases "accepts net ?next")
      case True
      have "client (create_client ?next ?s1) = Some (new_async_client ?next)"
        by (simp add: create_client_def)
      from connection_established_returns [OF this, of net ?next 0] True i ne
      show ?thesis by (simp add: Let_def try_connect_to_broker_def)
    next
      case False
      let ?s2 = "(create_client ?next ?s1)\<lparr>current_broker_try_index := ?i + 1\<rparr>"
      have bm: "broker_manager ?s2 = ?m1" by (simp add: create_client_def)
      from i have "?next \<in> set ?uris" by simp
      from available_count_mark [OF d1 this] Suc.prems(2)
      have "length (available_broker_uris (mark_broker_unavailable ?next (broker_manager ?s2)))
              < fuel"
        unfolding bm by simp
      moreover have "distinct (map uri (brokers (broker_manager ?s2)))"
        unfolding bm by (rule d1)
      ultimately have "\<exists>s'. handle_connection_failure fuel net ?next ?s2 = Inr s'"
        by (rule Suc.IH [rotated])
      with False i ne show ?thesis
        by (simp add: Let_def try_connect_to_broker_def create_client_def)
    qed
  qed
qed

lemma switch_to_best_broker_returns:
  assumes "distinct (map uri (brokers (broker_manager s)))"
    and "length (available_broker_uris (broker_manager s)) \<le> fuel"
  shows "\<exists>s'. switch_to_best_broker fuel net s = Inr s'"
proof (cases "is_connecting s \<or> available_broker_uris (broker_manager s) = []")
  case True
  then show ?thesis by (auto simp: switch_to_best_broker_def destroy_client_def Let_def)
next
  case False
  let ?uris = "available_broker_uris (broker_manager s)"
  let ?i = "if current_broker_try_index s \<ge> length ?uris then 0 else current_broker_try_index s"
  let ?target = "?uris ! ?i"
  let ?s2 = "s\<lparr>is_connecting := True, client := None, current_broker_try_index := ?i\<rparr>"
  from False have ne: "?uris \<noteq> []" and idle: "\<not> is_connecting s" by auto
  then have i: "?i < length ?uris" by auto
  show ?thesis
  proof (cases "accepts net ?target")
    case True
    have "client (create_client ?target ?s2) = Some (new_async_client ?target)"
      by (simp add: create_client_def)
    from connection_established_returns [OF this, of net ?target 0] True ne idle
    show ?thesis
      by (auto simp: switch_to_best_broker_def destroy_client_def Let_def
          try_connect_to_broker_def create_client_def)
  next
    case False
    let ?s3 = "(create_client ?target ?s2)\<lparr>current_broker_try_index := ?i + 1\<rparr>"
    have bm: "broker_manager ?s3 = broker_manager s" by (simp add: create_client_def)
    from i have "?target \<in> set ?uris" by (rule nth_mem)
    from available_count_mark [OF assms(1) this] assms(2)
    have "length (available_broker_uris (mark_broker_unavailable ?target (broker_manager ?s3)))
            < fuel"
      unfolding bm by simp
    moreover have "distinct (map uri (brokers (broker_manager ?s3)))"
      unfolding bm by (rule assms(1))
    ultimately obtain s4 where "handle_connection_failure fuel net ?target ?s3 = Inr s4"
      using handle_connection_failure_returns by blast
    with False ne idle show ?thesis
      by (auto simp: switch_to_best_broker_def destroy_client_def Let_def
          try_connect_to_broker_def create_client_def)
  qed
qed

section \<open>Switching brokers\<close>

lemma swap_registry_eq:
  "swap_registry =
     \<lparr>brokers = [\<lparr>uri = ''A'', latency = 50, bandwidth = 500000, connection_count = 50,
                  score = 1/2, is_available = True, last_check = 1\<rparr>,
                 \<lparr>uri = ''B'', latency = 10, bandwidth = 2000000, connection_count = 10,
                  score = 23/25, is_available = True, last_check = 2\<rparr>],
      current_broker_index = 0, category_name = ''sensor''\<rparr>"
  by (simp add: swap_registry_def new_BrokerListManager_def add_broker_def new_BrokerInfo_def
      update_broker_metrics_def update_score_def latency_score_def bandwidth_score_def
      connection_score_def LATENCY_BASELINE_def BANDWIDTH_BASELINE_def CONNECTION_BASELINE_def
      category_weights_def CATEGORY_WEIGHTS_def Let_def)

lemma swap_manager_reached:
  "connect network_up
     ((new_SelfAdaptiveMqttManager ''sensor'')
        \<lparr>broker_manager := run_ops [Add 0 ''A'', Add 0 ''B''] (new_BrokerListManager ''sensor'')\<rparr>)
   = Inr (True, swap_manager\<lparr>broker_manager :=
            run_ops [Add 0 ''A'', Add 0 ''B''] (new_BrokerListManager ''sensor'')\<rparr>)"
  by (simp add: connect_def new_SelfAdaptiveMqttManager_def new_BrokerListManager_def
      add_broker_def new_BrokerInfo_def available_broker_uris_def get_all_brokers_def
      try_connect_to_broker_def create_client_def network_up_def connection_established_def
      set_current_broker_def resend_queued_messages_def swap_manager_def Let_def)

text \<open>
  C1. The manager is connected to A (score 0.5); B is available and has score 0.92, so
  \<open>find_best_broker\<close> returns B and \<open>should_switch_broker\<close> is true. The claim says that
  \<open>on_broker_switch\<close> then connects to B, the best-scored broker, and makes it current.
  The code takes the target from the list of available brokers at
  \<open>current_broker_try_index_\<close>, which is 0 after the connect to A: it connects to A again,
  and the manager is in the state it was in before the call, with A current.
\<close>

theorem switch_ignores_best_broker:
  "should_switch_broker (broker_manager swap_manager)
   \<and> map_option uri (find_best_broker (broker_manager swap_manager)) = Some ''B''
   \<and> on_broker_switch 3 network_up ''B'' swap_manager = Inr swap_manager
   \<and> get_current_broker_uri (broker_manager swap_manager) = ''A''
   \<and> map_option server_uri (client swap_manager) = Some ''A''"
  by (simp add: swap_manager_def swap_registry_eq should_switch_broker_def SWITCH_THRESHOLD_def
      get_current_broker_def find_best_broker_def on_broker_switch_def switch_to_best_broker_def
      destroy_client_def available_broker_uris_def get_all_brokers_def
      try_connect_to_broker_def create_client_def network_up_def connection_established_def
      set_current_broker_def resend_queued_messages_def get_current_broker_uri_def
      new_async_client_def Let_def)

end
